theory Spec2Isabelle
  imports Main "HOL-Library.Word"
begin

unbundle bit_operations_syntax

section \<open>VIDEO.C: machine types\<close>

text \<open>
  The file is written for MS C 5.0, small model (its header comment), a 16-bit
  compiler: \<open>int\<close> and \<open>unsigned int\<close> are 16 bits wide (\<open>vid_put_hex_word\<close>
  prints an \<open>unsigned int\<close> as four hex digits), \<open>long\<close> is 32 bits, \<open>char\<close> is a
  byte. Arithmetic on \<open>int\<close> wraps modulo \<open>2 ^ 16\<close> on the 8086; \<open>>>\<close> on a signed
  \<open>int\<close> is the arithmetic shift, \<open>signed_drop_bit\<close>.

  A far pointer is a segment and a 16-bit offset; adding an \<open>int\<close> to a far pointer
  changes the offset only, modulo \<open>2 ^ 16\<close>.
\<close>

type_synonym byte = "8 word"
type_synonym cint = "16 word"
type_synonym farptr = "16 word \<times> 16 word"

definition far_add :: "farptr \<Rightarrow> cint \<Rightarrow> farptr" where
  "far_add p k = (fst p, snd p + k)"

text \<open>The two text buffers, \<open>(char far *)0xB0000000L\<close> and \<open>(char far *)0xB8000000L\<close>.\<close>

definition mono_buffer :: farptr where
  "mono_buffer = (0xB000, 0x0000)"

definition color_buffer :: farptr where
  "color_buffer = (0xB800, 0x0000)"

text \<open>
  The adapter codes \<open>VID_MDA\<close> .. \<open>VID_COLORPLUS\<close> are macros of \<open>video.h\<close>; the code
  uses them as the members of an enumeration only (the order below is that of
  \<open>type_names\<close>).
\<close>

datatype adapter =
  VID_MDA | VID_HERCULES | VID_CGA | VID_EGA | VID_VGA | VID_PGA | VID_MCGA
| VID_HERCPLUS | VID_INCOLOR | VID_COLORPLUS

section \<open>Internal state\<close>

text \<open>
  The three statics of the file, together with the bytes the program has sent to
  I/O ports with \<open>outp\<close> (port and value, oldest first).
\<close>

record vid_state =
  vid_base :: farptr
  vid_adapter_type :: adapter
  vid_mono :: cint
  outp_log :: "(16 word \<times> byte) list"

section \<open>Attribute mapping\<close>

definition vid_map_attr :: "vid_state \<Rightarrow> cint \<Rightarrow> cint" where
  "vid_map_attr s attr =
     (if vid_mono s = 0 then attr
      else
        let blink = attr AND 0x80;
            fg = attr AND 0x0F;
            bg = signed_drop_bit 4 attr AND 0x07;
            mapped =
              (if fg = 0 \<and> bg = 0 then 0x00
               else if bg \<noteq> 0 then 0x70
               else if fg AND 0x08 \<noteq> 0 then 0x0F
               else if fg = 1 then 0x01
               else 0x07)
        in mapped OR blink)"

text \<open>
  The rule of the specification, section 4.2, in its own words, on the attribute
  byte: blink is bit 7, the foreground is the low nibble, the background is bits
  4 to 6; the first matching rule of the five decides.
\<close>

definition spec_map_attr :: "bool \<Rightarrow> byte \<Rightarrow> byte" where
  "spec_map_attr mono_flag attr =
     (if mono_flag then
        let foreground = unat attr mod 16;
            background = (unat attr div 16) mod 8;
            shown =
              (if foreground = 0 \<and> background = 0 then 0x00
               else if background \<noteq> 0 then 0x70
               else if 8 \<le> foreground then 0x0F
               else if foreground = 1 then 0x01
               else 0x07)
        in if bit attr 7 then shown + 0x80 else shown
      else attr)"


text \<open>The ten attribute bytes the specification lists as the range under \<open>mono_flag\<close>.\<close>

definition mono_range :: "cint set" where
  "mono_range = {0x00, 0x01, 0x07, 0x0F, 0x70, 0x80, 0x81, 0x87, 0x8F, 0xF0}"

section \<open>Adapter detection\<close>

text \<open>
  What the machine answers to each probe of \<open>vid_init\<close>: the registers the BIOS
  returns, the two bytes of the PGA communications buffer, and the bytes the
  status port 3BAh and the ColorPlus port 3DDh deliver, read after read (the
  \<open>k\<close>-th \<open>inp\<close> of a port during the call, counted from 0).
\<close>

record machine =
  int10_1a_al :: byte
  int10_1a_bl :: byte
  int10_12_bl :: byte
  int10_12_bh :: byte
  pga_stat :: byte
  pga_cmd :: byte
  int11_ax :: cint
  inp_3ba :: "nat \<Rightarrow> byte"
  inp_3dd :: "nat \<Rightarrow> byte"

text \<open>
  The fields of the replies, as section 6 of the specification names them: bit 7
  of the status port is the retrace bit, bits 6 to 4 are the card ID; bits 5 and 4
  of the equipment word describe the display, 11b for monochrome.
\<close>

definition retrace_bit :: "byte \<Rightarrow> bool" where
  "retrace_bit b = bit b 7"

definition card_id :: "byte \<Rightarrow> nat" where
  "card_id b = unat b div 16 mod 8"

definition display_bits :: "cint \<Rightarrow> nat" where
  "display_bits ax = unat ax div 16 mod 4"

definition vid_set :: "adapter \<Rightarrow> cint \<Rightarrow> vid_state \<Rightarrow> vid_state" where
  "vid_set type mono_arg s =
     s\<lparr>vid_adapter_type := type, vid_mono := mono_arg,
       vid_base := (if mono_arg \<noteq> 0 then mono_buffer else color_buffer)\<rparr>"

definition vid_set_ex :: "adapter \<Rightarrow> cint \<Rightarrow> farptr \<Rightarrow> vid_state \<Rightarrow> vid_state" where
  "vid_set_ex type mono_arg base s =
     s\<lparr>vid_adapter_type := type, vid_mono := mono_arg, vid_base := base\<rparr>"

text \<open>\<open>outp(port, value)\<close>: the low byte of \<open>value\<close> goes to the port.\<close>

definition outp :: "16 word \<Rightarrow> cint \<Rightarrow> vid_state \<Rightarrow> vid_state" where
  "outp port v s = s\<lparr>outp_log := outp_log s @ [(port, ucast v)]\<rparr>"

definition detect_pga :: "machine \<Rightarrow> cint" where
  "detect_pga m =
     (let s = pga_stat m in
      if s = 0xFF then 0
      else
        let c = pga_cmd m in
        if c = 0xFF then 0
        else if s > 0x0F then 0
        else 1)"

text \<open>
  Step 1, the \<open>switch (regs.h.bl)\<close>: the adapter and the mono flag of each display
  code; a code without a \<open>case\<close> leaves the switch and detection goes on with
  step 2.
\<close>

definition display_code :: "byte \<Rightarrow> (adapter \<times> cint) option" where
  "display_code bl =
     (if bl = 0x01 then Some (VID_MDA, 1)
      else if bl = 0x02 then Some (VID_CGA, 0)
      else if bl = 0x04 then Some (VID_EGA, 0)
      else if bl = 0x05 then Some (VID_EGA, 1)
      else if bl = 0x06 then Some (VID_PGA, 0)
      else if bl = 0x07 then Some (VID_VGA, 1)
      else if bl = 0x08 then Some (VID_VGA, 0)
      else if bl = 0x0A then Some (VID_MCGA, 0)
      else if bl = 0x0B then Some (VID_MCGA, 1)
      else if bl = 0x0C then Some (VID_MCGA, 0)
      else None)"

text \<open>
  Step 5, the loop \<open>for (i = 0; i < 32768; i++)\<close> over the status port. The
  counter \<open>i\<close> is a 16-bit \<open>int\<close>. The constant 32768 does not fit an \<open>int\<close>, so
  it is a \<open>long\<close>, and \<open>i\<close> is widened to \<open>long\<close> for the comparison: the test
  compares the signed value of \<open>i\<close> with 32768. \<open>i++\<close> wraps at 32767.
  The result is \<open>changed\<close> and the number of reads of the port made so far;
  \<open>None\<close> is a loop that never ends.
\<close>

partial_function (option) retrace_poll ::
  "(nat \<Rightarrow> byte) \<Rightarrow> cint \<Rightarrow> cint \<Rightarrow> nat \<Rightarrow> (cint \<times> nat) option" where
  "retrace_poll rd val i k =
     (if sint i < 32768 then
        (if (ucast (rd k) :: cint) AND 0x80 \<noteq> val then Some (1, Suc k)
         else retrace_poll rd val (i + 1) (Suc k))
      else Some (0, k))"

text \<open>Step 6 (lines 225 to 237): the ColorPlus probe and the CGA default.\<close>

definition vid_init_colorplus :: "machine \<Rightarrow> vid_state \<Rightarrow> adapter \<times> vid_state" where
  "vid_init_colorplus m s =
     (let s1 = outp 0x3DD 0x55 s in
      if (ucast (inp_3dd m 0) :: cint) = 0x55 then
        (let s2 = outp 0x3DD 0xAA s1 in
         if (ucast (inp_3dd m 1) :: cint) = 0xAA then
           (VID_COLORPLUS, vid_set VID_COLORPLUS 0 (outp 0x3DD 0x00 s2))
         else (VID_CGA, vid_set VID_CGA 0 (outp 0x3DD 0x00 s2)))
      else (VID_CGA, vid_set VID_CGA 0 (outp 0x3DD 0x00 s1)))"

text \<open>Step 5 (lines 174 to 212): the monochrome branch.\<close>

definition vid_init_hercules :: "machine \<Rightarrow> vid_state \<Rightarrow> (adapter \<times> vid_state) option" where
  "vid_init_hercules m s =
     (let s1 = s\<lparr>vid_base := mono_buffer\<rparr>;
          val = (ucast (inp_3ba m 0) :: cint) AND 0x80
      in case retrace_poll (inp_3ba m) val 0 1 of
           None \<Rightarrow> None
         | Some (changed, k) \<Rightarrow>
             if changed \<noteq> 0 then
               (let card_id = signed_drop_bit 4 (ucast (inp_3ba m k) :: cint) AND 0x07 in
                if card_id = 1 then Some (VID_HERCPLUS, vid_set VID_HERCPLUS 1 s1)
                else if card_id = 5 then
                  Some (VID_INCOLOR, vid_set_ex VID_INCOLOR 0 mono_buffer s1)
                else Some (VID_HERCULES, vid_set VID_HERCULES 1 s1))
             else Some (VID_MDA, vid_set VID_MDA 1 s1))"

text \<open>Step 4 (lines 169 to 172): the equipment word chooses between steps 5 and 6.\<close>

definition vid_init_equipment :: "machine \<Rightarrow> vid_state \<Rightarrow> (adapter \<times> vid_state) option" where
  "vid_init_equipment m s =
     (let equip = int11_ax m in
      if signed_drop_bit 4 equip AND 0x03 = 0x03 then vid_init_hercules m s
      else Some (vid_init_colorplus m s))"

text \<open>
  \<open>vid_init\<close>, steps 1 to 3, then the rest of the cascade. The result is the
  value returned and the state left behind; \<open>None\<close> when the call never returns.
\<close>

definition vid_init :: "machine \<Rightarrow> vid_state \<Rightarrow> (adapter \<times> vid_state) option" where
  "vid_init m s =
     (case (if int10_1a_al m = 0x1A then display_code (int10_1a_bl m) else None) of
        Some (type, mono_arg) \<Rightarrow> Some (type, vid_set type mono_arg s)
      | None \<Rightarrow>
          if int10_12_bl m \<noteq> 0x10 then
            Some (VID_EGA, vid_set VID_EGA (if int10_12_bh m \<noteq> 0 then 1 else 0) s)
          else if detect_pga m \<noteq> 0 then Some (VID_PGA, vid_set VID_PGA 0 s)
          else vid_init_equipment m s)"

section \<open>Adapter info\<close>

definition vid_type :: "vid_state \<Rightarrow> adapter" where
  "vid_type s = vid_adapter_type s"

definition vid_is_mono :: "vid_state \<Rightarrow> cint" where
  "vid_is_mono s = vid_mono s"

section \<open>Output primitives (direct video memory)\<close>

text \<open>
  The constants of \<open>video.h\<close> that the output routines use are parameters of
  the model: the number of columns and the six box-drawing characters. The
  theorems hold for every value of them.
\<close>

record video_h =
  VID_COLS :: cint
  VID_BOX_H :: cint
  VID_BOX_V :: cint
  VID_BOX_TL :: cint
  VID_BOX_TR :: cint
  VID_BOX_BL :: cint
  VID_BOX_BR :: cint

text \<open>
  The routines only write to video memory. The effect of a call is the list of
  the cells it stores, in program order: \<open>(p, ch, a)\<close> stands for the pair of
  stores \<open>*p = ch; *(p + 1) = a\<close>.
\<close>

type_synonym cell_store = "farptr \<times> byte \<times> byte"

definition vid_putc :: "video_h \<Rightarrow> vid_state \<Rightarrow> cint \<Rightarrow> cint \<Rightarrow> cint \<Rightarrow> cint \<Rightarrow> cell_store list" where
  "vid_putc h s row col ch attr =
     (let a = (if vid_mono s \<noteq> 0 then vid_map_attr s attr else attr);
          p = far_add (vid_base s) (push_bit 1 (row * VID_COLS h + col))
      in [(p, ucast ch, ucast a)])"

text \<open>
  A C string is the list of the bytes that \<open>s\<close> points to; the byte read past
  the end of the list is the terminating NUL.
\<close>

definition deref :: "byte list \<Rightarrow> byte" where
  "deref str = (case str of [] \<Rightarrow> 0 | c # _ \<Rightarrow> c)"

text \<open>The loop of \<open>vid_putsn\<close>: \<open>for (i = 0; i < n; i++)\<close>, from the current \<open>i\<close>.\<close>

function vid_putsn_loop :: "farptr \<Rightarrow> byte list \<Rightarrow> cint \<Rightarrow> cint \<Rightarrow> cint \<Rightarrow> cell_store list" where
  "vid_putsn_loop p str a n i =
     (if i <s n then
        (if deref str \<noteq> 0
         then (p, deref str, ucast a) # vid_putsn_loop (far_add p 2) (tl str) a n (i + 1)
         else (p, 0x20, ucast a) # vid_putsn_loop (far_add p 2) str a n (i + 1))
      else [])"
  by pat_completeness auto
termination
proof -
  have step: "sint i < sint n \<and> sint i < sint (i + 1)" if "i <s n" for n i :: cint
  proof -
    from that have less: "sint i < sint n"
      by (simp add: word_sless_alt)
    moreover have "sint n < 2 ^ 15"
      using sint_lt [of n] by simp
    moreover have "- (2 ^ 15) \<le> sint i"
      using sint_ge [of i] by simp
    ultimately have "sint (i + 1) = sint i + 1"
      by (simp add: sint_word_ariths signed_take_bit_int_eq_self)
    with less show ?thesis
      by simp
  qed
  show ?thesis
    by (relation "measure (\<lambda>(p, str, a, n, i). nat (sint n - sint i))")
      (simp_all add: step)
qed

declare vid_putsn_loop.simps [simp del]

definition vid_putsn :: "video_h \<Rightarrow> vid_state \<Rightarrow> cint \<Rightarrow> cint \<Rightarrow> byte list \<Rightarrow> cint \<Rightarrow> cint \<Rightarrow> cell_store list" where
  "vid_putsn h s row col str n attr =
     (let a = (if vid_mono s \<noteq> 0 then vid_map_attr s attr else attr);
          p = far_add (vid_base s) (push_bit 1 (row * VID_COLS h + col))
      in vid_putsn_loop p str a n 0)"

text \<open>The loop of \<open>vid_fill\<close>: \<open>for (i = 0; i < count; i++)\<close>, from the current \<open>i\<close>.\<close>

function vid_fill_loop :: "farptr \<Rightarrow> cint \<Rightarrow> cint \<Rightarrow> cint \<Rightarrow> cint \<Rightarrow> cell_store list" where
  "vid_fill_loop p ch a n i =
     (if i <s n then (p, ucast ch, ucast a) # vid_fill_loop (far_add p 2) ch a n (i + 1)
      else [])"
  by pat_completeness auto
termination
proof -
  have step: "sint i < sint n \<and> sint i < sint (i + 1)" if "i <s n" for n i :: cint
  proof -
    from that have less: "sint i < sint n"
      by (simp add: word_sless_alt)
    moreover have "sint n < 2 ^ 15"
      using sint_lt [of n] by simp
    moreover have "- (2 ^ 15) \<le> sint i"
      using sint_ge [of i] by simp
    ultimately have "sint (i + 1) = sint i + 1"
      by (simp add: sint_word_ariths signed_take_bit_int_eq_self)
    with less show ?thesis
      by simp
  qed
  show ?thesis
    by (relation "measure (\<lambda>(p, ch, a, n, i). nat (sint n - sint i))")
      (simp_all add: step)
qed

declare vid_fill_loop.simps [simp del]

definition vid_fill :: "video_h \<Rightarrow> vid_state \<Rightarrow> cint \<Rightarrow> cint \<Rightarrow> cint \<Rightarrow> cint \<Rightarrow> cint \<Rightarrow> cell_store list" where
  "vid_fill h s row col ch attr count =
     (let a = (if vid_mono s \<noteq> 0 then vid_map_attr s attr else attr);
          p = far_add (vid_base s) (push_bit 1 (row * VID_COLS h + col))
      in vid_fill_loop p ch a count 0)"

section \<open>Box drawing\<close>

definition vid_hline :: "video_h \<Rightarrow> vid_state \<Rightarrow> cint \<Rightarrow> cint \<Rightarrow> cint \<Rightarrow> cint \<Rightarrow> cell_store list" where
  "vid_hline h s row col n attr = vid_fill h s row col (VID_BOX_H h) attr n"

text \<open>The loop of \<open>vid_vline\<close>: \<open>for (i = 0; i < n; i++)\<close>, from the current \<open>i\<close>.\<close>

function vid_vline_loop :: "video_h \<Rightarrow> vid_state \<Rightarrow> cint \<Rightarrow> cint \<Rightarrow> cint \<Rightarrow> cint \<Rightarrow> cint \<Rightarrow> cell_store list" where
  "vid_vline_loop h s row col attr n i =
     (if i <s n
      then vid_putc h s (row + i) col (VID_BOX_V h) attr @ vid_vline_loop h s row col attr n (i + 1)
      else [])"
  by pat_completeness auto
termination
proof -
  have step: "sint i < sint n \<and> sint i < sint (i + 1)" if "i <s n" for n i :: cint
  proof -
    from that have less: "sint i < sint n"
      by (simp add: word_sless_alt)
    moreover have "sint n < 2 ^ 15"
      using sint_lt [of n] by simp
    moreover have "- (2 ^ 15) \<le> sint i"
      using sint_ge [of i] by simp
    ultimately have "sint (i + 1) = sint i + 1"
      by (simp add: sint_word_ariths signed_take_bit_int_eq_self)
    with less show ?thesis
      by simp
  qed
  show ?thesis
    by (relation "measure (\<lambda>(h, s, row, col, attr, n, i). nat (sint n - sint i))")
      (simp_all add: step)
qed

declare vid_vline_loop.simps [simp del]

definition vid_vline :: "video_h \<Rightarrow> vid_state \<Rightarrow> cint \<Rightarrow> cint \<Rightarrow> cint \<Rightarrow> cint \<Rightarrow> cell_store list" where
  "vid_vline h s row col n attr = vid_vline_loop h s row col attr n 0"

text \<open>
  \<open>vid_box\<close> in three parts, in the order of the source: the corners, the
  horizontal edges, the vertical edges.
\<close>

definition box_corners :: "video_h \<Rightarrow> vid_state \<Rightarrow> cint \<Rightarrow> cint \<Rightarrow> cint \<Rightarrow> cint \<Rightarrow> cint \<Rightarrow> cell_store list" where
  "box_corners h s r1 c1 r2 c2 attr =
     vid_putc h s r1 c1 (VID_BOX_TL h) attr
     @ vid_putc h s r1 c2 (VID_BOX_TR h) attr
     @ vid_putc h s r2 c1 (VID_BOX_BL h) attr
     @ vid_putc h s r2 c2 (VID_BOX_BR h) attr"

definition box_hedges :: "video_h \<Rightarrow> vid_state \<Rightarrow> cint \<Rightarrow> cint \<Rightarrow> cint \<Rightarrow> cint \<Rightarrow> cint \<Rightarrow> cell_store list" where
  "box_hedges h s r1 c1 r2 c2 attr =
     vid_hline h s r1 (c1 + 1) (c2 - c1 - 1) attr
     @ vid_hline h s r2 (c1 + 1) (c2 - c1 - 1) attr"

definition box_vedges :: "video_h \<Rightarrow> vid_state \<Rightarrow> cint \<Rightarrow> cint \<Rightarrow> cint \<Rightarrow> cint \<Rightarrow> cint \<Rightarrow> cell_store list" where
  "box_vedges h s r1 c1 r2 c2 attr =
     vid_vline h s (r1 + 1) c1 (r2 - r1 - 1) attr
     @ vid_vline h s (r1 + 1) c2 (r2 - r1 - 1) attr"

definition vid_box :: "video_h \<Rightarrow> vid_state \<Rightarrow> cint \<Rightarrow> cint \<Rightarrow> cint \<Rightarrow> cint \<Rightarrow> cint \<Rightarrow> cell_store list" where
  "vid_box h s r1 c1 r2 c2 attr =
     box_corners h s r1 c1 r2 c2 attr
     @ box_hedges h s r1 c1 r2 c2 attr
     @ box_vedges h s r1 c1 r2 c2 attr"

section \<open>Describing what is written\<close>

text \<open>
  The words of the specification for the effect of the output routines. The cell
  \<open>(row, col)\<close> lies at offset \<open>(row * COLS + col) * 2\<close> of the buffer; a run of
  cells is one character after the other in consecutive cells, all with one
  attribute; the attribute shown is the attribute after mapping; a text of fixed
  width is the characters of the string up to its terminator, cut off at the
  width, then spaces for the remainder.
\<close>

definition cell_ptr :: "video_h \<Rightarrow> vid_state \<Rightarrow> cint \<Rightarrow> cint \<Rightarrow> farptr" where
  "cell_ptr h s row col = far_add (vid_base s) ((row * VID_COLS h + col) * 2)"

fun row_cells :: "farptr \<Rightarrow> byte list \<Rightarrow> byte \<Rightarrow> cell_store list" where
  "row_cells p [] a = []"
| "row_cells p (c # cs) a = (p, c, a) # row_cells (far_add p 2) cs a"

definition shown_attr :: "vid_state \<Rightarrow> cint \<Rightarrow> byte" where
  "shown_attr s attr = ucast (vid_map_attr s attr)"

definition c_text :: "byte list \<Rightarrow> byte list" where
  "c_text str = takeWhile (\<lambda>c. c \<noteq> 0) str"

definition fixed_text :: "nat \<Rightarrow> byte list \<Rightarrow> byte list" where
  "fixed_text n str = take n (c_text str) @ replicate (n - length (c_text str)) 0x20"

section \<open>Example machines\<close>

text \<open>
  The statics before \<open>vid_init\<close> has run (zero-initialised; \<open>type_names[0]\<close> is
  \<open>"MDA"\<close>), and the same state once a monochrome adapter has been set.
\<close>

definition boot_state :: vid_state where
  "boot_state = \<lparr>vid_base = (0, 0), vid_adapter_type = VID_MDA, vid_mono = 0, outp_log = []\<rparr>"

definition mono_state :: vid_state where
  "mono_state = vid_set VID_MDA 1 boot_state"

text \<open>
  A plain CGA machine: the BIOS knows neither service (AL comes back as sent, BL
  stays 10h), nothing answers at C600h, the equipment word says 80-column colour,
  and the ports read bus float.
\<close>

definition cga_machine :: machine where
  "cga_machine =
     \<lparr>int10_1a_al = 0x00, int10_1a_bl = 0x00, int10_12_bl = 0x10, int10_12_bh = 0x00,
      pga_stat = 0xFF, pga_cmd = 0xFF, int11_ax = 0x0020,
      inp_3ba = (\<lambda>k. 0xFF), inp_3dd = (\<lambda>k. 0xFF)\<rparr>"

text \<open>A VGA with a monochrome display: display code 07h.\<close>

definition vga_mono_machine :: machine where
  "vga_mono_machine = cga_machine\<lparr>int10_1a_al := 0x1A, int10_1a_bl := 0x07\<rparr>"

text \<open>A PGA whose BIOS lacks the display-code service: idle status and command bytes.\<close>

definition pga_machine :: machine where
  "pga_machine = cga_machine\<lparr>pga_stat := 0x00, pga_cmd := 0x00\<rparr>"

text \<open>
  An InColor card: equipment bits 11b, the retrace bit is clear at the first
  read and set from the second on, the card ID is 5.
\<close>

definition incolor_machine :: machine where
  "incolor_machine =
     cga_machine\<lparr>int11_ax := 0x0030, inp_3ba := (\<lambda>k. if k = 0 then 0x50 else 0xD0)\<rparr>"

text \<open>An MDA: equipment bits 11b, bit 7 of the status port never changes.\<close>

definition mda_machine :: machine where
  "mda_machine = cga_machine\<lparr>int11_ax := 0x0030, inp_3ba := (\<lambda>k. 0x09)\<rparr>"

text \<open>A ColorPlus: port 3DDh returns what was written to it.\<close>

definition colorplus_machine :: machine where
  "colorplus_machine = cga_machine\<lparr>inp_3dd := (\<lambda>k. if k = 0 then 0x55 else 0xAA)\<rparr>"

text \<open>The usual values of the constants of \<open>video.h\<close>: 80 columns, CP 437 single lines.\<close>

definition cp437_80 :: video_h where
  "cp437_80 =
     \<lparr>VID_COLS = 80, VID_BOX_H = 0xC4, VID_BOX_V = 0xB3,
      VID_BOX_TL = 0xDA, VID_BOX_TR = 0xBF, VID_BOX_BL = 0xC0, VID_BOX_BR = 0xD9\<rparr>"

section \<open>The attribute mapper\<close>

lemma unat_ucast_byte: "unat (ucast (b::byte) :: cint) = unat b"
  by (simp add: unsigned_ucast_eq take_bit_nat_eq_self_iff)
    (use unsigned_less [of b, where ?'a = nat] in simp)

lemma fg_unat: "unat ((ucast (b::byte) :: cint) AND 0x0F) = unat b mod 16"
proof -
  have "(ucast b :: cint) AND 0x0F = take_bit 4 (ucast b)"
    by (simp add: take_bit_eq_mask mask_eq_exp_minus_1)
  then show ?thesis
    by (simp add: unsigned_take_bit_eq take_bit_eq_mod unat_ucast_byte unat_mod)
qed

lemma sdrop_ucast: "signed_drop_bit 4 (ucast (b::byte) :: cint) = drop_bit 4 (ucast b)"
  by (rule bit_word_eqI) (auto simp add: bit_simps dest: bit_imp_le_length)

lemma bg_unat:
  "unat (signed_drop_bit 4 (ucast (b::byte) :: cint) AND 0x07) = unat b div 16 mod 8"
proof -
  have "drop_bit 4 (ucast b :: cint) AND 0x07 = take_bit 3 (drop_bit 4 (ucast b))"
    by (simp add: take_bit_eq_mask mask_eq_exp_minus_1)
  then show ?thesis
    by (simp add: sdrop_ucast unsigned_take_bit_eq take_bit_eq_mod unat_drop_bit_eq
        drop_bit_eq_div unat_ucast_byte unat_mod unat_div)
qed

lemma fg_zero: "(ucast (b::byte) :: cint) AND 0x0F = 0 \<longleftrightarrow> unat b mod 16 = 0"
  using fg_unat [of b] by (metis unat_eq_0)

lemma fg_one: "(ucast (b::byte) :: cint) AND 0x0F = 1 \<longleftrightarrow> unat b mod 16 = 1"
  using fg_unat [of b] by (metis unat_1 word_unat_eq_iff)

lemma bg_zero:
  "signed_drop_bit 4 (ucast (b::byte) :: cint) AND 0x07 = 0 \<longleftrightarrow> unat b div 16 mod 8 = 0"
  using bg_unat [of b] by (metis unat_eq_0)

lemma and_exp_cases: "(w::'a::len word) AND 2 ^ n = (if bit w n then 2 ^ n else 0)"
  by (rule bit_word_eqI) (auto simp add: bit_and_iff bit_exp_iff)

lemma blink_byte: "(ucast (b::byte) :: cint) AND 0x80 = (if bit b 7 then 0x80 else 0)"
  using and_exp_cases [of "ucast b :: cint" 7] by (simp add: bit_ucast_iff)

lemma blink_cint: "(w :: cint) AND 0x80 = (if bit w 7 then 0x80 else 0)"
  using and_exp_cases [of w 7] by simp

lemma bit3_odd: "bit (w::cint) 3 \<longleftrightarrow> odd (unat w div 8)"
proof -
  have "bit (unat w) 3 \<longleftrightarrow> bit w 3"
    by (simp add: bit_unsigned_iff)
  then show ?thesis
    by (simp add: bit_iff_odd)
qed

lemma fg_bold:
  "((ucast (b::byte) :: cint) AND 0x0F) AND 0x08 \<noteq> 0 \<longleftrightarrow> 8 \<le> unat b mod 16"
proof -
  let ?f = "(ucast b :: cint) AND 0x0F"
  have "?f AND 8 \<noteq> 0 \<longleftrightarrow> bit ?f 3"
    using and_exp_cases [of ?f 3] by (simp split: if_splits)
  also have "\<dots> \<longleftrightarrow> odd (unat ?f div 8)"
    by (rule bit3_odd)
  also have "\<dots> \<longleftrightarrow> 8 \<le> unat b mod 16"
    unfolding fg_unat by presburger
  finally show ?thesis .
qed

lemma map_attr_in_range:
  assumes "vid_mono s \<noteq> 0"
  shows "vid_map_attr s a \<in> mono_range"
  using assms by (simp add: vid_map_attr_def Let_def blink_cint mono_range_def)

lemma map_attr_fixed:
  assumes "vid_mono s \<noteq> 0" and "c \<in> mono_range"
  shows "vid_map_attr s c = c"
  using assms by (auto simp add: vid_map_attr_def Let_def mono_range_def)

lemma mono_range_bytes:
  assumes "c \<in> mono_range"
  shows "\<exists>b::byte. c = ucast b"
proof -
  have "c = ucast (ucast c :: byte)"
    using assms by (auto simp add: mono_range_def)
  then show ?thesis ..
qed

text \<open>
  Claim C1. \<open>vid_map_attr\<close> meets its contract on every attribute byte: it
  computes the rule of the specification, \<open>spec_map_attr\<close>, with \<open>mono_flag\<close>
  read as \<open>vid_mono \<noteq> 0\<close>. Without the flag that rule is the identity; with it,
  blink is bit 7, the foreground is bits 0 to 3, the background is bits 4 to 6,
  the first of the five rules that matches gives 00h, 70h, 0Fh, 01h or 07h, and
  the blink bit is put back.
\<close>

theorem vid_map_attr_contract:
  "vid_map_attr s (ucast b) = ucast (spec_map_attr (vid_mono s \<noteq> 0) b)"
proof (cases "vid_mono s = 0")
  case True
  then show ?thesis
    by (simp add: vid_map_attr_def spec_map_attr_def)
next
  case False
  then show ?thesis
    by (simp add: vid_map_attr_def spec_map_attr_def Let_def
        fg_zero fg_one bg_zero fg_bold blink_byte)
qed

text \<open>
  Claim C4. On a monochrome adapter \<open>vid_map_attr\<close> is idempotent, every result
  lies in the set of ten bytes of the specification, and the attribute bytes are
  mapped onto exactly that set. The first two parts hold for every \<open>int\<close>
  argument, the attribute bytes among them.
\<close>

theorem vid_map_attr_idempotent:
  assumes "vid_mono s \<noteq> 0"
  shows "vid_map_attr s (vid_map_attr s attr) = vid_map_attr s attr
    \<and> vid_map_attr s attr \<in> mono_range
    \<and> (\<lambda>b::byte. vid_map_attr s (ucast b)) ` UNIV = mono_range"
proof (intro conjI)
  show in_range: "vid_map_attr s attr \<in> mono_range"
    using assms by (rule map_attr_in_range)
  then show "vid_map_attr s (vid_map_attr s attr) = vid_map_attr s attr"
    using assms by (simp add: map_attr_fixed)
  show "(\<lambda>b::byte. vid_map_attr s (ucast b)) ` UNIV = mono_range"
  proof
    show "(\<lambda>b::byte. vid_map_attr s (ucast b)) ` UNIV \<subseteq> mono_range"
      using assms by (auto simp add: map_attr_in_range)
    show "mono_range \<subseteq> (\<lambda>b::byte. vid_map_attr s (ucast b)) ` UNIV"
    proof
      fix c assume c: "c \<in> mono_range"
      then obtain b :: byte where "c = ucast b"
        using mono_range_bytes by blast
      with c assms have "c = vid_map_attr s (ucast b)"
        by (simp add: map_attr_fixed)
      then show "c \<in> (\<lambda>b::byte. vid_map_attr s (ucast b)) ` UNIV"
        by blast
    qed
  qed
qed

theorem vid_map_attr_idempotent_witness:
  "vid_mono mono_state \<noteq> 0
    \<and> vid_map_attr mono_state (vid_map_attr mono_state 0x9E) = vid_map_attr mono_state 0x9E
    \<and> vid_map_attr mono_state 0x9E = 0xF0"
proof -
  have mono: "vid_mono mono_state \<noteq> 0"
    by (simp add: mono_state_def vid_set_def)
  have "vid_map_attr mono_state 0x9E = 0xF0"
    by (simp add: vid_map_attr_def mono_state_def vid_set_def)
  with mono vid_map_attr_idempotent [OF mono, of "0x9E"] show ?thesis
    by simp
qed

section \<open>The detection cascade\<close>

lemma int_below_ceiling: "sint (i::cint) < 32768"
  using sint_lt [of i] by simp

lemma retrace_poll_unfold:
  "retrace_poll rd val i k =
     (if (ucast (rd k) :: cint) AND 0x80 \<noteq> val then Some (1, Suc k)
      else retrace_poll rd val (i + 1) (Suc k))"
  by (subst retrace_poll.simps) (simp add: int_below_ceiling)

lemma retrace_mask_eq:
  "(ucast (a::byte) :: cint) AND 0x80 = (ucast (b::byte) :: cint) AND 0x80
    \<longleftrightarrow> retrace_bit a = retrace_bit b"
  by (simp add: blink_byte retrace_bit_def)

lemma card_id_less: "card_id b < 8"
  by (simp add: card_id_def)

lemma card_id_1: "signed_drop_bit 4 (ucast (b::byte) :: cint) AND 0x07 = 1 \<longleftrightarrow> card_id b = 1"
  using bg_unat [of b] by (metis card_id_def unat_1 word_unat_eq_iff)

lemma card_id_5: "signed_drop_bit 4 (ucast (b::byte) :: cint) AND 0x07 = 5 \<longleftrightarrow> card_id b = 5"
proof -
  have "unat (5::cint) = 5" by simp
  then show ?thesis
    using bg_unat [of b] by (metis card_id_def word_unat_eq_iff)
qed

lemma sdrop_mask3: "signed_drop_bit 4 (w::cint) AND 0x03 = drop_bit 4 w AND 0x03"
proof -
  have "signed_drop_bit 4 w AND mask 2 = drop_bit 4 w AND mask 2"
    by (rule bit_word_eqI) (auto simp add: bit_simps)
  then show ?thesis
    by (simp add: mask_eq_exp_minus_1)
qed

lemma display_bits_3: "signed_drop_bit 4 (ax::cint) AND 0x03 = 0x03 \<longleftrightarrow> display_bits ax = 3"
proof -
  have "drop_bit 4 ax AND 0x03 = take_bit 2 (drop_bit 4 ax)"
    by (simp add: take_bit_eq_mask mask_eq_exp_minus_1)
  then have "unat (signed_drop_bit 4 ax AND 0x03) = display_bits ax"
    by (simp add: sdrop_mask3 display_bits_def unsigned_take_bit_eq take_bit_eq_mod
        unat_drop_bit_eq drop_bit_eq_div unat_mod unat_div)
  moreover have "unat (3::cint) = 3" by simp
  ultimately show ?thesis
    by (metis word_unat_eq_iff)
qed


lemma retrace_poll_toggle:
  assumes "\<forall>l. k \<le> l \<and> l < j \<longrightarrow> (ucast (rd l) :: cint) AND 0x80 = val"
    and "(ucast (rd j) :: cint) AND 0x80 \<noteq> val" and "k \<le> j"
  shows "retrace_poll rd val i k = Some (1, Suc j)"
  using assms
proof (induction "j - k" arbitrary: k i)
  case 0
  then have "k = j" by simp
  with 0 show ?case
    by (subst retrace_poll_unfold) simp
next
  case (Suc d)
  then have "k < j" by simp
  with Suc.prems have same: "(ucast (rd k) :: cint) AND 0x80 = val"
    by simp
  have "retrace_poll rd val (i + 1) (Suc k) = Some (1, Suc j)"
  proof (rule Suc.hyps(1))
    show "d = j - Suc k" using Suc.hyps(2) by simp
    show "\<forall>l. Suc k \<le> l \<and> l < j \<longrightarrow> (ucast (rd l) :: cint) AND 0x80 = val"
      using Suc.prems(1) by simp
    show "(ucast (rd j) :: cint) AND 0x80 \<noteq> val" by (rule Suc.prems(2))
    show "Suc k \<le> j" using \<open>k < j\<close> by simp
  qed
  with same show ?case
    by (subst retrace_poll_unfold) simp
qed

lemma retrace_poll_Some:
  assumes "retrace_poll rd val i k = Some r"
  shows "fst r = 1 \<and> (\<exists>j\<ge>k. (ucast (rd j) :: cint) AND 0x80 \<noteq> val)"
proof (rule retrace_poll.raw_induct [OF _ assms])
  fix poll :: "(nat \<Rightarrow> byte) \<Rightarrow> cint \<Rightarrow> cint \<Rightarrow> nat \<Rightarrow> (cint \<times> nat) option"
  fix rd val i k r
  assume IH: "\<And>rd val i k r. poll rd val i k = Some r \<Longrightarrow>
    fst r = 1 \<and> (\<exists>j\<ge>k. (ucast (rd j) :: cint) AND 0x80 \<noteq> val)"
  assume body: "(if sint i < 32768
      then if (ucast (rd k) :: cint) AND 0x80 \<noteq> val then Some (1, Suc k)
           else poll rd val (i + 1) (Suc k)
      else Some (0, k)) = Some r"
  show "fst r = 1 \<and> (\<exists>j\<ge>k. (ucast (rd j) :: cint) AND 0x80 \<noteq> val)"
  proof (cases "(ucast (rd k) :: cint) AND 0x80 \<noteq> val")
    case True
    with body have "r = (1, Suc k)"
      by (simp add: int_below_ceiling)
    with True show ?thesis by auto
  next
    case False
    with body have "poll rd val (i + 1) (Suc k) = Some r"
      by (simp add: int_below_ceiling)
    from IH [OF this] obtain j where "fst r = 1" and "Suc k \<le> j"
      and "(ucast (rd j) :: cint) AND 0x80 \<noteq> val"
      by blast
    then show ?thesis
      by (metis Suc_leD)
  qed
qed

lemma retrace_poll_never:
  assumes "\<forall>j\<ge>k. (ucast (rd j) :: cint) AND 0x80 = val"
  shows "retrace_poll rd val i k = None"
proof (cases "retrace_poll rd val i k")
  case None
  then show ?thesis .
next
  case (Some r)
  from retrace_poll_Some [OF this] assms show ?thesis
    by blast
qed

text \<open>The monochrome branch on a card whose retrace bit toggles at read \<open>j\<close>.\<close>

lemma vid_init_hercules_toggle:
  assumes "1 \<le> j"
    and "\<forall>l. 1 \<le> l \<and> l < j \<longrightarrow> retrace_bit (inp_3ba m l) = retrace_bit (inp_3ba m 0)"
    and "retrace_bit (inp_3ba m j) \<noteq> retrace_bit (inp_3ba m 0)"
  shows "vid_init_hercules m s =
     (if card_id (inp_3ba m (Suc j)) = 1
        then Some (VID_HERCPLUS, vid_set VID_HERCPLUS 1 (s\<lparr>vid_base := mono_buffer\<rparr>))
      else if card_id (inp_3ba m (Suc j)) = 5
        then Some (VID_INCOLOR, vid_set_ex VID_INCOLOR 0 mono_buffer (s\<lparr>vid_base := mono_buffer\<rparr>))
      else Some (VID_HERCULES, vid_set VID_HERCULES 1 (s\<lparr>vid_base := mono_buffer\<rparr>)))"
proof -
  have "retrace_poll (inp_3ba m) ((ucast (inp_3ba m 0) :: cint) AND 0x80) 0 1 = Some (1, Suc j)"
    using assms by (intro retrace_poll_toggle) (simp_all add: retrace_mask_eq)
  then show ?thesis
    by (simp add: vid_init_hercules_def Let_def card_id_1 card_id_5)
qed

text \<open>The monochrome branch on a card whose retrace bit never toggles.\<close>

lemma vid_init_hercules_never:
  assumes "\<forall>j. retrace_bit (inp_3ba m j) = retrace_bit (inp_3ba m 0)"
  shows "vid_init_hercules m s = None"
proof -
  have "retrace_poll (inp_3ba m) ((ucast (inp_3ba m 0) :: cint) AND 0x80) 0 1 = None"
    using assms by (intro retrace_poll_never) (simp add: retrace_mask_eq)
  then show ?thesis
    by (simp add: vid_init_hercules_def Let_def)
qed

lemma ucast_byte_eq_55: "(ucast (b::byte) :: cint) = 0x55 \<longleftrightarrow> b = 0x55"
proof -
  have "unat (0x55::cint) = unat (0x55::byte)" by simp
  then show ?thesis
    by (metis unat_ucast_byte word_unat_eq_iff)
qed

lemma ucast_byte_eq_AA: "(ucast (b::byte) :: cint) = 0xAA \<longleftrightarrow> b = 0xAA"
proof -
  have "unat (0xAA::cint) = unat (0xAA::byte)" by simp
  then show ?thesis
    by (metis unat_ucast_byte word_unat_eq_iff)
qed

lemma detect_pga_iff:
  "detect_pga m \<noteq> 0 \<longleftrightarrow> pga_stat m \<noteq> 0xFF \<and> pga_cmd m \<noteq> 0xFF \<and> pga_stat m \<le> 0x0F"
  by (auto simp add: detect_pga_def Let_def)

lemma vid_init_colorplus_result:
  "vid_init_colorplus m s =
     (if inp_3dd m 0 = 0x55 \<and> inp_3dd m 1 = 0xAA then VID_COLORPLUS else VID_CGA,
      s\<lparr>vid_adapter_type :=
          (if inp_3dd m 0 = 0x55 \<and> inp_3dd m 1 = 0xAA then VID_COLORPLUS else VID_CGA),
        vid_mono := 0, vid_base := color_buffer,
        outp_log := outp_log s @
          (if inp_3dd m 0 = 0x55 then [(0x3DD, 0x55), (0x3DD, 0xAA), (0x3DD, 0x00)]
           else [(0x3DD, 0x55), (0x3DD, 0x00)])\<rparr>)"
  by (simp add: vid_init_colorplus_def Let_def outp_def vid_set_def
      ucast_byte_eq_55 ucast_byte_eq_AA)

lemma vid_init_equipment_color:
  assumes "display_bits (int11_ax m) \<noteq> 3"
  shows "vid_init_equipment m s = Some (vid_init_colorplus m s)"
  using assms by (simp add: vid_init_equipment_def Let_def display_bits_3)

lemma vid_init_equipment_mono:
  assumes "display_bits (int11_ax m) = 3"
  shows "vid_init_equipment m s = vid_init_hercules m s"
  using assms by (simp add: vid_init_equipment_def Let_def display_bits_3)

lemma vid_init_step4:
  assumes "(if int10_1a_al m = 0x1A then display_code (int10_1a_bl m) else None) = None"
    and "int10_12_bl m = 0x10" and "detect_pga m = 0"
  shows "vid_init m s = vid_init_equipment m s"
  using assms by (simp add: vid_init_def)

lemma detect_pga_stat_FF:
  assumes "pga_stat m = 0xFF"
  shows "detect_pga m = 0"
  using assms by (simp add: detect_pga_def)

lemma buffers_differ: "mono_buffer \<noteq> color_buffer"
  by (simp add: mono_buffer_def color_buffer_def)

lemma display_code_mono:
  assumes "display_code bl = Some (t, mf)"
  shows "t \<noteq> VID_INCOLOR \<and> (mf = 0 \<or> mf = 1)"
  using assms by (auto simp add: display_code_def split: if_splits)

lemma vid_set_descriptor:
  assumes "mf = 0 \<or> mf = 1"
  shows "vid_adapter_type (vid_set t mf s) = t
    \<and> vid_mono (vid_set t mf s) = mf
    \<and> vid_base (vid_set t mf s) = (if mf = 1 then mono_buffer else color_buffer)"
  using assms by (auto simp add: vid_set_def)

lemma vid_init_colorplus_descriptor:
  assumes "vid_init_colorplus m s = (t, s')"
  shows "vid_adapter_type s' = t \<and> vid_mono s' = 0 \<and> vid_base s' = color_buffer
    \<and> t \<noteq> VID_INCOLOR"
  using assms by (auto simp add: vid_init_colorplus_result split: if_splits)

lemma vid_init_hercules_descriptor:
  assumes "vid_init_hercules m s = Some (t, s')"
  shows "vid_adapter_type s' = t \<and> vid_base s' = mono_buffer
    \<and> (vid_mono s' = 0 \<and> t = VID_INCOLOR \<and> (\<exists>k. card_id (inp_3ba m k) = 5)
        \<or> vid_mono s' = 1 \<and> t \<noteq> VID_INCOLOR)"
  using assms
  by (auto simp add: vid_init_hercules_def Let_def vid_set_def vid_set_ex_def card_id_1 card_id_5
      split: option.splits if_splits)

lemma vid_init_hercules_returns_iff:
  "vid_init_hercules m s \<noteq> None
    \<longleftrightarrow> (\<exists>j. retrace_bit (inp_3ba m j) \<noteq> retrace_bit (inp_3ba m 0))"
proof
  assume returns: "vid_init_hercules m s \<noteq> None"
  show "\<exists>j. retrace_bit (inp_3ba m j) \<noteq> retrace_bit (inp_3ba m 0)"
  proof (rule ccontr)
    assume "\<not> (\<exists>j. retrace_bit (inp_3ba m j) \<noteq> retrace_bit (inp_3ba m 0))"
    then have "\<forall>j. retrace_bit (inp_3ba m j) = retrace_bit (inp_3ba m 0)"
      by simp
    from vid_init_hercules_never [OF this] returns show False
      by simp
  qed
next
  let ?P = "\<lambda>j. retrace_bit (inp_3ba m j) \<noteq> retrace_bit (inp_3ba m 0)"
  assume ex: "\<exists>j. ?P j"
  define j where "j = (LEAST j. ?P j)"
  have j: "?P j"
    unfolding j_def using ex by (rule LeastI_ex)
  have least: "retrace_bit (inp_3ba m l) = retrace_bit (inp_3ba m 0)" if "l < j" for l
    using not_less_Least [of l ?P] that unfolding j_def by simp
  have "j \<noteq> 0"
  proof
    assume "j = 0"
    with j show False
      by blast
  qed
  then have "1 \<le> j"
    by simp
  have "vid_init_hercules m s =
     (if card_id (inp_3ba m (Suc j)) = 1
        then Some (VID_HERCPLUS, vid_set VID_HERCPLUS 1 (s\<lparr>vid_base := mono_buffer\<rparr>))
      else if card_id (inp_3ba m (Suc j)) = 5
        then Some (VID_INCOLOR, vid_set_ex VID_INCOLOR 0 mono_buffer (s\<lparr>vid_base := mono_buffer\<rparr>))
      else Some (VID_HERCULES, vid_set VID_HERCULES 1 (s\<lparr>vid_base := mono_buffer\<rparr>)))"
  proof (rule vid_init_hercules_toggle)
    show "1 \<le> j"
      by fact
    show "\<forall>l. 1 \<le> l \<and> l < j \<longrightarrow> retrace_bit (inp_3ba m l) = retrace_bit (inp_3ba m 0)"
      using least by blast
    show "retrace_bit (inp_3ba m j) \<noteq> retrace_bit (inp_3ba m 0)"
      by (rule j)
  qed
  then show "vid_init_hercules m s \<noteq> None"
    by simp
qed

lemma vid_init_returns_iff:
  "vid_init m s = None \<longleftrightarrow>
     (if int10_1a_al m = 0x1A then display_code (int10_1a_bl m) else None) = None
     \<and> int10_12_bl m = 0x10 \<and> detect_pga m = 0 \<and> display_bits (int11_ax m) = 3
     \<and> (\<forall>j. retrace_bit (inp_3ba m j) = retrace_bit (inp_3ba m 0))"
proof (cases "(if int10_1a_al m = 0x1A then display_code (int10_1a_bl m) else None) = None
     \<and> int10_12_bl m = 0x10 \<and> detect_pga m = 0")
  case True
  then have eq: "vid_init m s = vid_init_equipment m s"
    by (simp add: vid_init_step4)
  show ?thesis
  proof (cases "display_bits (int11_ax m) = 3")
    case mono: True
    then have "vid_init m s = vid_init_hercules m s"
      using eq by (simp add: vid_init_equipment_mono)
    with True mono show ?thesis
      using vid_init_hercules_returns_iff [of m s] by auto
  next
    case False
    then show ?thesis
      using eq by (simp add: vid_init_equipment_color)
  qed
next
  case False
  have "vid_init m s \<noteq> None"
  proof (cases "if int10_1a_al m = 0x1A then display_code (int10_1a_bl m) else None")
    case (Some r)
    then show ?thesis
      by (simp add: vid_init_def split: prod.splits)
  next
    case None
    with False have "int10_12_bl m \<noteq> 0x10 \<or> detect_pga m \<noteq> 0"
      by blast
    with None show ?thesis
      by (auto simp add: vid_init_def)
  qed
  with False show ?thesis
    by blast
qed

lemma vid_init_equipment_not_pga: "vid_init_equipment m s \<noteq> Some (VID_PGA, s')"
proof (cases "display_bits (int11_ax m) = 3")
  case True
  then show ?thesis
    by (auto simp add: vid_init_equipment_mono vid_init_hercules_def Let_def
        split: option.splits if_splits)
next
  case False
  then show ?thesis
    by (auto simp add: vid_init_equipment_color vid_init_colorplus_result)
qed

text \<open>
  Claim C2. The claim is that \<open>vid_init\<close> returns for every combination of
  probe results, the retrace poll being bounded by 32768 iterations. The counter
  of the poll is a 16-bit \<open>int\<close>, for which \<open>i < 32768\<close> always holds, so the poll
  ends only when the retrace bit changes (\<open>vid_init_returns_iff\<close> above). On an
  MDA, where equipment bits are 11b and the bit never changes, the call does not
  return.
\<close>

theorem vid_init_mda_never_returns: "vid_init mda_machine boot_state = None"
proof -
  have "vid_init_hercules mda_machine boot_state = None"
    by (rule vid_init_hercules_never) (simp add: mda_machine_def)
  then show ?thesis
    by (simp add: vid_init_def vid_init_equipment_def detect_pga_def mda_machine_def
        cga_machine_def)
qed

text \<open>
  Claim C5. The three detection scenarios. (1) The video-state query succeeds
  with display code 07h: VGA, mono flag set. (2) The query fails, BL comes back
  as 10h, the PGA status byte is FFh, the equipment bits are 11b, the retrace bit
  first differs from its initial value at read \<open>j\<close> of the loop, within the
  ceiling, and the card ID read next is 5: InColor, mono flag clear, base at the
  mono buffer. (3) All earlier probes fail and port 3DDh returns 55h and AAh:
  ColorPlus, mono flag clear, and the last byte sent to the port is 00h.
\<close>

theorem detection_scenarios:
  "(int10_1a_al m = 0x1A \<and> int10_1a_bl m = 0x07 \<longrightarrow>
      (\<exists>s'. vid_init m s = Some (VID_VGA, s') \<and> vid_type s' = VID_VGA \<and> vid_is_mono s' \<noteq> 0))
   \<and> (int10_1a_al m \<noteq> 0x1A \<and> int10_12_bl m = 0x10 \<and> pga_stat m = 0xFF
        \<and> display_bits (int11_ax m) = 3
        \<and> 1 \<le> j \<and> j \<le> 32768
        \<and> (\<forall>l. 1 \<le> l \<and> l < j \<longrightarrow> retrace_bit (inp_3ba m l) = retrace_bit (inp_3ba m 0))
        \<and> retrace_bit (inp_3ba m j) \<noteq> retrace_bit (inp_3ba m 0)
        \<and> card_id (inp_3ba m (Suc j)) = 5 \<longrightarrow>
      (\<exists>s'. vid_init m s = Some (VID_INCOLOR, s') \<and> vid_type s' = VID_INCOLOR
         \<and> vid_is_mono s' = 0 \<and> vid_base s' = mono_buffer))
   \<and> (int10_1a_al m \<noteq> 0x1A \<and> int10_12_bl m = 0x10 \<and> detect_pga m = 0
        \<and> display_bits (int11_ax m) \<noteq> 3
        \<and> inp_3dd m 0 = 0x55 \<and> inp_3dd m 1 = 0xAA \<longrightarrow>
      (\<exists>s'. vid_init m s = Some (VID_COLORPLUS, s') \<and> vid_type s' = VID_COLORPLUS
         \<and> vid_is_mono s' = 0 \<and> last (outp_log s') = (0x3DD, 0x00)))"
proof (intro conjI impI)
  assume "int10_1a_al m = 0x1A \<and> int10_1a_bl m = 0x07"
  then have "vid_init m s = Some (VID_VGA, vid_set VID_VGA 1 s)"
    by (simp add: vid_init_def display_code_def)
  then show "\<exists>s'. vid_init m s = Some (VID_VGA, s') \<and> vid_type s' = VID_VGA \<and> vid_is_mono s' \<noteq> 0"
    by (simp add: vid_set_def vid_type_def vid_is_mono_def)
next
  assume a: "int10_1a_al m \<noteq> 0x1A \<and> int10_12_bl m = 0x10 \<and> pga_stat m = 0xFF
        \<and> display_bits (int11_ax m) = 3
        \<and> 1 \<le> j \<and> j \<le> 32768
        \<and> (\<forall>l. 1 \<le> l \<and> l < j \<longrightarrow> retrace_bit (inp_3ba m l) = retrace_bit (inp_3ba m 0))
        \<and> retrace_bit (inp_3ba m j) \<noteq> retrace_bit (inp_3ba m 0)
        \<and> card_id (inp_3ba m (Suc j)) = 5"
  then have "vid_init m s = vid_init_hercules m s"
    by (simp add: vid_init_step4 detect_pga_stat_FF vid_init_equipment_mono)
  also have "\<dots> = Some (VID_INCOLOR,
      vid_set_ex VID_INCOLOR 0 mono_buffer (s\<lparr>vid_base := mono_buffer\<rparr>))"
    using a by (subst vid_init_hercules_toggle [of j]) simp_all
  finally show "\<exists>s'. vid_init m s = Some (VID_INCOLOR, s') \<and> vid_type s' = VID_INCOLOR
         \<and> vid_is_mono s' = 0 \<and> vid_base s' = mono_buffer"
    by (simp add: vid_set_ex_def vid_type_def vid_is_mono_def)
next
  assume a: "int10_1a_al m \<noteq> 0x1A \<and> int10_12_bl m = 0x10 \<and> detect_pga m = 0
        \<and> display_bits (int11_ax m) \<noteq> 3
        \<and> inp_3dd m 0 = 0x55 \<and> inp_3dd m 1 = 0xAA"
  then have "vid_init m s = Some (vid_init_colorplus m s)"
    by (simp add: vid_init_step4 vid_init_equipment_color)
  with a show "\<exists>s'. vid_init m s = Some (VID_COLORPLUS, s') \<and> vid_type s' = VID_COLORPLUS
         \<and> vid_is_mono s' = 0 \<and> last (outp_log s') = (0x3DD, 0x00)"
    by (simp add: vid_init_colorplus_result vid_type_def vid_is_mono_def)
qed

theorem detection_scenarios_witness:
  "vid_init vga_mono_machine boot_state =
      Some (VID_VGA,
        \<lparr>vid_base = mono_buffer, vid_adapter_type = VID_VGA, vid_mono = 1, outp_log = []\<rparr>)
    \<and> vid_init incolor_machine boot_state =
      Some (VID_INCOLOR,
        \<lparr>vid_base = mono_buffer, vid_adapter_type = VID_INCOLOR, vid_mono = 0, outp_log = []\<rparr>)
    \<and> vid_init colorplus_machine boot_state =
      Some (VID_COLORPLUS,
        \<lparr>vid_base = color_buffer, vid_adapter_type = VID_COLORPLUS, vid_mono = 0,
         outp_log = [(0x3DD, 0x55), (0x3DD, 0xAA), (0x3DD, 0x00)]\<rparr>)"
proof -
  have vga: "int10_1a_al vga_mono_machine = 0x1A \<and> int10_1a_bl vga_mono_machine = 0x07"
    by (simp add: vga_mono_machine_def)
  have incolor: "int10_1a_al incolor_machine \<noteq> 0x1A \<and> int10_12_bl incolor_machine = 0x10
      \<and> pga_stat incolor_machine = 0xFF \<and> display_bits (int11_ax incolor_machine) = 3
      \<and> (1::nat) \<le> 1 \<and> (1::nat) \<le> 32768
      \<and> (\<forall>l. 1 \<le> l \<and> l < 1 \<longrightarrow>
            retrace_bit (inp_3ba incolor_machine l) = retrace_bit (inp_3ba incolor_machine 0))
      \<and> retrace_bit (inp_3ba incolor_machine 1) \<noteq> retrace_bit (inp_3ba incolor_machine 0)
      \<and> card_id (inp_3ba incolor_machine (Suc 1)) = 5"
    by (simp add: incolor_machine_def cga_machine_def display_bits_def retrace_bit_def
        card_id_def)
  have colorplus: "int10_1a_al colorplus_machine \<noteq> 0x1A \<and> int10_12_bl colorplus_machine = 0x10
      \<and> detect_pga colorplus_machine = 0 \<and> display_bits (int11_ax colorplus_machine) \<noteq> 3
      \<and> inp_3dd colorplus_machine 0 = 0x55 \<and> inp_3dd colorplus_machine 1 = 0xAA"
    by (simp add: colorplus_machine_def cga_machine_def detect_pga_def display_bits_def)
  have "vid_init vga_mono_machine boot_state =
      Some (VID_VGA,
        \<lparr>vid_base = mono_buffer, vid_adapter_type = VID_VGA, vid_mono = 1, outp_log = []\<rparr>)"
    using detection_scenarios [where m = vga_mono_machine and s = boot_state and j = 1] vga
    by (simp add: vid_init_def display_code_def vid_set_def boot_state_def)
  moreover have "vid_init incolor_machine boot_state =
      Some (VID_INCOLOR,
        \<lparr>vid_base = mono_buffer, vid_adapter_type = VID_INCOLOR, vid_mono = 0, outp_log = []\<rparr>)"
    using detection_scenarios [where m = incolor_machine and s = boot_state and j = 1] incolor
    by (simp add: vid_init_def vid_init_equipment_def vid_init_hercules_def detect_pga_def
        retrace_poll_unfold vid_set_ex_def boot_state_def incolor_machine_def cga_machine_def)
  moreover have "vid_init colorplus_machine boot_state =
      Some (VID_COLORPLUS,
        \<lparr>vid_base = color_buffer, vid_adapter_type = VID_COLORPLUS, vid_mono = 0,
         outp_log = [(0x3DD, 0x55), (0x3DD, 0xAA), (0x3DD, 0x00)]\<rparr>)"
    using detection_scenarios [where m = colorplus_machine and s = boot_state and j = 1] colorplus
    by (simp add: vid_init_def vid_init_equipment_def vid_init_colorplus_def detect_pga_def
        outp_def vid_set_def boot_state_def colorplus_machine_def cga_machine_def)
  ultimately show ?thesis
    by simp
qed

text \<open>
  Claim C6. Whatever \<open>vid_init\<close> returns, the descriptor it leaves satisfies: a
  set mono flag implies the mono buffer; the mono flag is clear with the base at
  the mono buffer exactly for InColor; every other adapter with a clear mono flag
  has the colour buffer; and InColor is returned only on the monochrome branch
  from a status byte whose card ID is 5.
\<close>

theorem descriptor_invariant:
  assumes "vid_init m s = Some (t, s')"
  shows "vid_adapter_type s' = t
    \<and> (vid_mono s' \<noteq> 0 \<longrightarrow> vid_base s' = mono_buffer)
    \<and> (vid_mono s' = 0 \<and> vid_base s' = mono_buffer \<longleftrightarrow> t = VID_INCOLOR)
    \<and> (vid_mono s' = 0 \<and> t \<noteq> VID_INCOLOR \<longrightarrow> vid_base s' = color_buffer)
    \<and> (t = VID_INCOLOR \<longrightarrow>
          display_bits (int11_ax m) = 3 \<and> (\<exists>k. card_id (inp_3ba m k) = 5))"
proof (cases "if int10_1a_al m = 0x1A then display_code (int10_1a_bl m) else None")
  case (Some r)
  obtain t0 mf where r: "r = (t0, mf)"
    by (cases r)
  with Some have "display_code (int10_1a_bl m) = Some (t0, mf)"
    by (simp split: if_splits)
  from display_code_mono [OF this] have t0: "t0 \<noteq> VID_INCOLOR" and mf: "mf = 0 \<or> mf = 1"
    by simp_all
  from assms Some r have "t = t0" and "s' = vid_set t0 mf s"
    by (auto simp add: vid_init_def)
  with t0 vid_set_descriptor [OF mf, of t0 s] mf show ?thesis
    using buffers_differ by auto
next
  case None
  show ?thesis
  proof (cases "int10_12_bl m \<noteq> 0x10")
    case True
    let ?mf = "if int10_12_bh m \<noteq> 0 then 1 else 0 :: cint"
    have mf: "?mf = 0 \<or> ?mf = 1"
      by simp
    from assms None True have "t = VID_EGA" and "s' = vid_set VID_EGA ?mf s"
      by (auto simp add: vid_init_def)
    with vid_set_descriptor [OF mf, of VID_EGA s] show ?thesis
      using buffers_differ by auto
  next
    case ega: False
    show ?thesis
    proof (cases "detect_pga m \<noteq> 0")
      case True
      with assms None ega have "t = VID_PGA" and "s' = vid_set VID_PGA 0 s"
        by (auto simp add: vid_init_def)
      with vid_set_descriptor [of 0 VID_PGA s] show ?thesis
        using buffers_differ by auto
    next
      case False
      with assms None ega have eq: "vid_init_equipment m s = Some (t, s')"
        by (simp add: vid_init_def)
      show ?thesis
      proof (cases "display_bits (int11_ax m) = 3")
        case True
        with eq have "vid_init_hercules m s = Some (t, s')"
          by (simp add: vid_init_equipment_mono)
        from vid_init_hercules_descriptor [OF this] True show ?thesis
          using buffers_differ by auto
      next
        case False
        with eq have "vid_init_colorplus m s = (t, s')"
          by (simp add: vid_init_equipment_color)
        from vid_init_colorplus_descriptor [OF this] show ?thesis
          using buffers_differ by auto
      qed
    qed
  qed
qed

theorem descriptor_invariant_witness:
  "vid_init incolor_machine boot_state =
      Some (VID_INCOLOR,
        \<lparr>vid_base = mono_buffer, vid_adapter_type = VID_INCOLOR, vid_mono = 0, outp_log = []\<rparr>)
    \<and> display_bits (int11_ax incolor_machine) = 3
    \<and> card_id (inp_3ba incolor_machine 2) = 5"
proof -
  have run: "vid_init incolor_machine boot_state =
      Some (VID_INCOLOR,
        \<lparr>vid_base = mono_buffer, vid_adapter_type = VID_INCOLOR, vid_mono = 0, outp_log = []\<rparr>)"
    by (simp add: vid_init_def vid_init_equipment_def vid_init_hercules_def detect_pga_def
        retrace_poll_unfold vid_set_ex_def boot_state_def incolor_machine_def cga_machine_def)
  have "card_id (inp_3ba incolor_machine 2) = 5"
    by (simp add: card_id_def incolor_machine_def)
  with run descriptor_invariant [OF run] show ?thesis
    by simp
qed

text \<open>
  Claim C7. \<open>detect_pga\<close> accepts exactly when the status byte is not FFh, the
  command byte is not FFh and the status byte is at most 0Fh. When steps 1 and 2
  have not matched, \<open>vid_init\<close> returns PGA exactly in that case and leaves the
  ports alone; otherwise it goes on with the equipment word.
\<close>

theorem pga_probe:
  "(detect_pga m \<noteq> 0 \<longleftrightarrow> pga_stat m \<noteq> 0xFF \<and> pga_cmd m \<noteq> 0xFF \<and> pga_stat m \<le> 0x0F)
   \<and> ((if int10_1a_al m = 0x1A then display_code (int10_1a_bl m) else None) = None
        \<and> int10_12_bl m = 0x10 \<longrightarrow>
      vid_init m s =
        (if pga_stat m \<noteq> 0xFF \<and> pga_cmd m \<noteq> 0xFF \<and> pga_stat m \<le> 0x0F
         then Some (VID_PGA, vid_set VID_PGA 0 s)
         else vid_init_equipment m s)
      \<and> ((\<exists>s'. vid_init m s = Some (VID_PGA, s'))
          \<longleftrightarrow> pga_stat m \<noteq> 0xFF \<and> pga_cmd m \<noteq> 0xFF \<and> pga_stat m \<le> 0x0F))"
proof (intro conjI impI)
  show "detect_pga m \<noteq> 0 \<longleftrightarrow> pga_stat m \<noteq> 0xFF \<and> pga_cmd m \<noteq> 0xFF \<and> pga_stat m \<le> 0x0F"
    by (rule detect_pga_iff)
next
  assume a: "(if int10_1a_al m = 0x1A then display_code (int10_1a_bl m) else None) = None
        \<and> int10_12_bl m = 0x10"
  then show run: "vid_init m s =
        (if pga_stat m \<noteq> 0xFF \<and> pga_cmd m \<noteq> 0xFF \<and> pga_stat m \<le> 0x0F
         then Some (VID_PGA, vid_set VID_PGA 0 s)
         else vid_init_equipment m s)"
    using detect_pga_iff [of m] by (simp add: vid_init_def)
  show "(\<exists>s'. vid_init m s = Some (VID_PGA, s'))
          \<longleftrightarrow> pga_stat m \<noteq> 0xFF \<and> pga_cmd m \<noteq> 0xFF \<and> pga_stat m \<le> 0x0F"
    unfolding run using vid_init_equipment_not_pga [of m s] by auto
qed

theorem pga_probe_witness:
  "vid_init pga_machine boot_state =
      Some (VID_PGA,
        \<lparr>vid_base = color_buffer, vid_adapter_type = VID_PGA, vid_mono = 0, outp_log = []\<rparr>)
   \<and> detect_pga cga_machine = 0
   \<and> vid_init cga_machine boot_state = vid_init_equipment cga_machine boot_state
   \<and> vid_init cga_machine boot_state =
      Some (VID_CGA,
        \<lparr>vid_base = color_buffer, vid_adapter_type = VID_CGA, vid_mono = 0,
         outp_log = [(0x3DD, 0x55), (0x3DD, 0x00)]\<rparr>)"
proof -
  have pga: "(if int10_1a_al pga_machine = 0x1A
      then display_code (int10_1a_bl pga_machine) else None) = None
      \<and> int10_12_bl pga_machine = 0x10"
    by (simp add: pga_machine_def cga_machine_def)
  have cga: "(if int10_1a_al cga_machine = 0x1A
      then display_code (int10_1a_bl cga_machine) else None) = None
      \<and> int10_12_bl cga_machine = 0x10"
    by (simp add: cga_machine_def)
  have "vid_init pga_machine boot_state =
      Some (VID_PGA,
        \<lparr>vid_base = color_buffer, vid_adapter_type = VID_PGA, vid_mono = 0, outp_log = []\<rparr>)"
    using pga_probe [of pga_machine boot_state] pga
    by (simp add: pga_machine_def cga_machine_def vid_set_def boot_state_def)
  moreover have "detect_pga cga_machine = 0"
    using pga_probe [of cga_machine boot_state]
    by (simp add: cga_machine_def)
  moreover have "vid_init cga_machine boot_state = vid_init_equipment cga_machine boot_state"
    using pga_probe [of cga_machine boot_state] cga
    by (simp add: cga_machine_def)
  moreover have "vid_init_equipment cga_machine boot_state =
      Some (VID_CGA,
        \<lparr>vid_base = color_buffer, vid_adapter_type = VID_CGA, vid_mono = 0,
         outp_log = [(0x3DD, 0x55), (0x3DD, 0x00)]\<rparr>)"
    by (simp add: vid_init_equipment_def vid_init_colorplus_def outp_def vid_set_def
        boot_state_def cga_machine_def)
  ultimately show ?thesis
    by simp
qed

text \<open>
  Claim C8. When the cascade reaches the ColorPlus probe, \<open>vid_init\<close> sends 55h
  to port 3DDh and reads it back, then, if that came back, AAh and reads it back;
  the adapter is ColorPlus exactly when both came back and CGA otherwise; and on
  every path the last byte sent to the port is 00h.
\<close>

theorem colorplus_probe:
  assumes "(if int10_1a_al m = 0x1A then display_code (int10_1a_bl m) else None) = None"
    and "int10_12_bl m = 0x10" and "detect_pga m = 0"
    and "display_bits (int11_ax m) \<noteq> 3"
  shows "\<exists>s'. vid_init m s =
        Some (if inp_3dd m 0 = 0x55 \<and> inp_3dd m 1 = 0xAA then VID_COLORPLUS else VID_CGA, s')
      \<and> outp_log s' = outp_log s @
          (if inp_3dd m 0 = 0x55 then [(0x3DD, 0x55), (0x3DD, 0xAA), (0x3DD, 0x00)]
           else [(0x3DD, 0x55), (0x3DD, 0x00)])
      \<and> last (outp_log s') = (0x3DD, 0x00)
      \<and> vid_mono s' = 0 \<and> vid_base s' = color_buffer"
proof -
  have "vid_init m s = Some (vid_init_colorplus m s)"
    using assms by (simp add: vid_init_step4 vid_init_equipment_color)
  then show ?thesis
    by (simp add: vid_init_colorplus_result)
qed

theorem colorplus_probe_witness:
  "vid_init colorplus_machine boot_state =
      Some (VID_COLORPLUS,
        \<lparr>vid_base = color_buffer, vid_adapter_type = VID_COLORPLUS, vid_mono = 0,
         outp_log = [(0x3DD, 0x55), (0x3DD, 0xAA), (0x3DD, 0x00)]\<rparr>)
    \<and> vid_init cga_machine boot_state =
      Some (VID_CGA,
        \<lparr>vid_base = color_buffer, vid_adapter_type = VID_CGA, vid_mono = 0,
         outp_log = [(0x3DD, 0x55), (0x3DD, 0x00)]\<rparr>)"
proof -
  have a: "(if int10_1a_al colorplus_machine = 0x1A
      then display_code (int10_1a_bl colorplus_machine) else None) = None"
    "int10_12_bl colorplus_machine = 0x10" "detect_pga colorplus_machine = 0"
    "display_bits (int11_ax colorplus_machine) \<noteq> 3"
    by (simp_all add: colorplus_machine_def cga_machine_def detect_pga_def display_bits_def)
  have b: "(if int10_1a_al cga_machine = 0x1A
      then display_code (int10_1a_bl cga_machine) else None) = None"
    "int10_12_bl cga_machine = 0x10" "detect_pga cga_machine = 0"
    "display_bits (int11_ax cga_machine) \<noteq> 3"
    by (simp_all add: cga_machine_def detect_pga_def display_bits_def)
  from colorplus_probe [OF a, of boot_state] colorplus_probe [OF b, of boot_state]
  show ?thesis
    by (auto simp add: colorplus_machine_def cga_machine_def boot_state_def
        vid_init_def vid_init_equipment_def vid_init_colorplus_def detect_pga_def
        outp_def vid_set_def Let_def)
qed

section \<open>The output routines\<close>

lemma sint_succ:
  fixes i n :: cint
  assumes "i <s n"
  shows "sint (i + 1) = sint i + 1"
proof -
  from assms have "sint i < sint n"
    by (simp add: word_sless_alt)
  moreover have "sint n < 2 ^ 15"
    using sint_lt [of n] by simp
  moreover have "- (2 ^ 15) \<le> sint i"
    using sint_ge [of i] by simp
  ultimately show ?thesis
    by (simp add: sint_word_ariths signed_take_bit_int_eq_self)
qed

lemma iterations_left:
  fixes i n :: cint
  assumes "i <s n"
  shows "nat (sint n - sint i) = Suc (nat (sint n - sint (i + 1)))"
proof -
  from assms have "sint i < sint n"
    by (simp add: word_sless_alt)
  with sint_succ [OF assms] show ?thesis
    by simp
qed

lemma iterations_done:
  fixes i n :: cint
  assumes "\<not> i <s n"
  shows "nat (sint n - sint i) = 0"
  using assms by (simp add: word_sless_alt)

lemma length_row_cells: "length (row_cells p cs a) = length cs"
  by (induction cs arbitrary: p) simp_all

lemma vid_fill_loop_eq:
  "vid_fill_loop p ch a n i =
     row_cells p (replicate (nat (sint n - sint i)) (ucast ch)) (ucast a)"
proof (induction p ch a n i rule: vid_fill_loop.induct)
  case (1 p ch a n i)
  show ?case
  proof (cases "i <s n")
    case True
    with "1.IH" show ?thesis
      by (subst vid_fill_loop.simps) (simp add: iterations_left)
  next
    case False
    then show ?thesis
      by (subst vid_fill_loop.simps) (simp add: iterations_done)
  qed
qed

lemma fixed_text_Suc:
  "fixed_text (Suc m) str =
     (if deref str \<noteq> 0 then deref str # fixed_text m (tl str) else 0x20 # fixed_text m str)"
proof (cases str)
  case Nil
  then show ?thesis
    by (simp add: fixed_text_def c_text_def deref_def)
next
  case (Cons c cs)
  then show ?thesis
    by (simp add: fixed_text_def c_text_def deref_def)
qed

lemma vid_putsn_loop_eq:
  "vid_putsn_loop p str a n i =
     row_cells p (fixed_text (nat (sint n - sint i)) str) (ucast a)"
proof (induction p str a n i rule: vid_putsn_loop.induct)
  case (1 p str a n i)
  show ?case
  proof (cases "i <s n")
    case True
    with "1.IH" show ?thesis
      by (subst vid_putsn_loop.simps) (simp add: iterations_left fixed_text_Suc)
  next
    case False
    then show ?thesis
      by (subst vid_putsn_loop.simps) (simp add: iterations_done fixed_text_def)
  qed
qed

lemma mapped_attr: "(if vid_mono s \<noteq> 0 then vid_map_attr s attr else attr) = vid_map_attr s attr"
  by (simp add: vid_map_attr_def)

lemma vid_putc_eq:
  "vid_putc h s row col ch attr = [(cell_ptr h s row col, ucast ch, shown_attr s attr)]"
  by (simp add: shown_attr_def vid_putc_def Let_def mapped_attr cell_ptr_def push_bit_eq_mult mult.commute)

lemma vid_fill_eq:
  "vid_fill h s row col ch attr n =
     row_cells (cell_ptr h s row col) (replicate (nat (sint n)) (ucast ch))
       (shown_attr s attr)"
  by (simp add: shown_attr_def vid_fill_def Let_def mapped_attr cell_ptr_def push_bit_eq_mult mult.commute
      vid_fill_loop_eq)

lemma vid_putsn_eq:
  "vid_putsn h s row col str n attr =
     row_cells (cell_ptr h s row col) (fixed_text (nat (sint n)) str)
       (shown_attr s attr)"
  by (simp add: shown_attr_def vid_putsn_def Let_def mapped_attr cell_ptr_def push_bit_eq_mult mult.commute
      vid_putsn_loop_eq)


lemma vid_vline_loop_eq:
  "vid_vline_loop h s row col attr n i =
     map (\<lambda>k. (cell_ptr h s (row + i + of_nat k) col, ucast (VID_BOX_V h), shown_attr s attr))
       [0..<nat (sint n - sint i)]"
proof (induction h s row col attr n i rule: vid_vline_loop.induct)
  case (1 h s row col attr n i)
  show ?case
  proof (cases "i <s n")
    case True
    have "[0..<Suc m] = 0 # map Suc [0..<m]" for m
      by (simp add: upt_conv_Cons map_Suc_upt del: upt_Suc)
    with True "1.IH" show ?thesis
      by (subst vid_vline_loop.simps)
        (simp add: iterations_left vid_putc_eq comp_def add.assoc del: upt_Suc)
  next
    case False
    then show ?thesis
      by (subst vid_vline_loop.simps) (simp add: iterations_done)
  qed
qed

lemma vid_vline_eq:
  "vid_vline h s row col n attr =
     map (\<lambda>k. (cell_ptr h s (row + of_nat k) col, ucast (VID_BOX_V h), shown_attr s attr))
       [0..<nat (sint n)]"
  by (simp add: vid_vline_def vid_vline_loop_eq)

lemma vid_hline_eq:
  "vid_hline h s row col n attr =
     row_cells (cell_ptr h s row col) (replicate (nat (sint n)) (ucast (VID_BOX_H h)))
       (shown_attr s attr)"
  by (simp add: vid_hline_def vid_fill_eq)

lemma next_cell: "far_add (cell_ptr h s row col) 2 = cell_ptr h s row (col + 1)"
  by (simp add: cell_ptr_def far_add_def algebra_simps)

lemma box_corners_eq:
  "box_corners h s r1 c1 r2 c2 attr =
     [(cell_ptr h s r1 c1, ucast (VID_BOX_TL h), shown_attr s attr),
      (cell_ptr h s r1 c2, ucast (VID_BOX_TR h), shown_attr s attr),
      (cell_ptr h s r2 c1, ucast (VID_BOX_BL h), shown_attr s attr),
      (cell_ptr h s r2 c2, ucast (VID_BOX_BR h), shown_attr s attr)]"
  by (simp add: box_corners_def vid_putc_eq)

lemma box_hedges_length:
  "length (box_hedges h s r1 c1 r2 c2 attr) = 2 * nat (sint (c2 - c1 - 1))"
  by (simp add: box_hedges_def vid_hline_eq length_row_cells)

lemma box_vedges_length:
  "length (box_vedges h s r1 c1 r2 c2 attr) = 2 * nat (sint (r2 - r1 - 1))"
  by (simp add: box_vedges_def vid_vline_eq)

lemma length_fixed_text: "length (fixed_text n str) = n"
  by (simp add: fixed_text_def)

lemma edge_length_nonpos:
  fixes a b :: cint
  assumes "b \<le>s a" and "sint a - sint b < 32768"
  shows "sint (b - a - 1) \<le> 0"
proof -
  from assms(1) have le: "sint b - sint a \<le> 0"
    by (simp add: word_sle_eq)
  have "sint (b - a) = sint b - sint a"
    using le assms(2) by (simp add: sint_word_ariths signed_take_bit_int_eq_self)
  moreover have "sint (b - a - 1) = signed_take_bit 15 (sint (b - a) - 1)"
    by (simp add: sint_word_ariths)
  ultimately have "sint (b - a - 1) = sint b - sint a - 1"
    using le assms(2) by (simp add: signed_take_bit_int_eq_self)
  with le show ?thesis
    by simp
qed

text \<open>
  Claim C9. \<open>vid_putsn(row, col, s, n, attr)\<close> writes the consecutive cells from
  \<open>(row, col)\<close> on, \<open>n\<close> of them (none when \<open>n\<close> is negative): the characters of
  \<open>s\<close> up to its terminator, cut off at \<open>n\<close>, then spaces, every cell with the
  mapped attribute. For \<open>"AB"\<close> and \<open>n = 5\<close> these are the cells \<open>A\<close>, \<open>B\<close>,
  space, space, space in columns \<open>col\<close> to \<open>col + 4\<close>.
\<close>

theorem vid_putsn_cells:
  "vid_putsn h s row col str n attr =
      row_cells (cell_ptr h s row col) (fixed_text (nat (sint n)) str) (shown_attr s attr)
   \<and> length (vid_putsn h s row col str n attr) = nat (sint n)
   \<and> vid_putsn h s row col [0x41, 0x42] 5 attr =
      [(cell_ptr h s row col, 0x41, shown_attr s attr),
       (cell_ptr h s row (col + 1), 0x42, shown_attr s attr),
       (cell_ptr h s row (col + 2), 0x20, shown_attr s attr),
       (cell_ptr h s row (col + 3), 0x20, shown_attr s attr),
       (cell_ptr h s row (col + 4), 0x20, shown_attr s attr)]"
proof (intro conjI)
  show "vid_putsn h s row col str n attr =
      row_cells (cell_ptr h s row col) (fixed_text (nat (sint n)) str) (shown_attr s attr)"
    by (rule vid_putsn_eq)
  show "length (vid_putsn h s row col str n attr) = nat (sint n)"
    by (simp add: vid_putsn_eq length_row_cells length_fixed_text)
  have "fixed_text 5 [0x41, 0x42] = [0x41, 0x42, 0x20, 0x20, 0x20]"
    by code_simp
  then show "vid_putsn h s row col [0x41, 0x42] 5 attr =
      [(cell_ptr h s row col, 0x41, shown_attr s attr),
       (cell_ptr h s row (col + 1), 0x42, shown_attr s attr),
       (cell_ptr h s row (col + 2), 0x20, shown_attr s attr),
       (cell_ptr h s row (col + 3), 0x20, shown_attr s attr),
       (cell_ptr h s row (col + 4), 0x20, shown_attr s attr)]"
    by (simp add: vid_putsn_eq next_cell add.assoc)
qed

text \<open>
  Claim C3, amended. \<open>vid_box(2, 2, 5, 10, attr)\<close> writes the 4 corner cells,
  \<open>2 * (10 - 2 - 1) = 14\<close> horizontal-edge cells in rows 2 and 5, columns 3 to 9,
  and \<open>2 * (5 - 2 - 1) = 4\<close> vertical-edge cells in rows 3 and 4, columns 2 and
  10: 18 cells that are not corners, 22 in all. The claim counts 6 vertical-edge
  cells and 24 cells that are not corners.
\<close>

theorem box_2_2_5_10:
  "box_corners h s 2 2 5 10 attr =
      [(cell_ptr h s 2 2, ucast (VID_BOX_TL h), shown_attr s attr),
       (cell_ptr h s 2 10, ucast (VID_BOX_TR h), shown_attr s attr),
       (cell_ptr h s 5 2, ucast (VID_BOX_BL h), shown_attr s attr),
       (cell_ptr h s 5 10, ucast (VID_BOX_BR h), shown_attr s attr)]
   \<and> box_hedges h s 2 2 5 10 attr =
      row_cells (cell_ptr h s 2 3) (replicate 7 (ucast (VID_BOX_H h))) (shown_attr s attr)
      @ row_cells (cell_ptr h s 5 3) (replicate 7 (ucast (VID_BOX_H h))) (shown_attr s attr)
   \<and> box_vedges h s 2 2 5 10 attr =
      [(cell_ptr h s 3 2, ucast (VID_BOX_V h), shown_attr s attr),
       (cell_ptr h s 4 2, ucast (VID_BOX_V h), shown_attr s attr),
       (cell_ptr h s 3 10, ucast (VID_BOX_V h), shown_attr s attr),
       (cell_ptr h s 4 10, ucast (VID_BOX_V h), shown_attr s attr)]
   \<and> length (box_corners h s 2 2 5 10 attr) = 4
   \<and> length (box_hedges h s 2 2 5 10 attr) = 14
   \<and> length (box_vedges h s 2 2 5 10 attr) = 4
   \<and> length (vid_box h s 2 2 5 10 attr) = 22"
proof (intro conjI)
  show "box_corners h s 2 2 5 10 attr =
      [(cell_ptr h s 2 2, ucast (VID_BOX_TL h), shown_attr s attr),
       (cell_ptr h s 2 10, ucast (VID_BOX_TR h), shown_attr s attr),
       (cell_ptr h s 5 2, ucast (VID_BOX_BL h), shown_attr s attr),
       (cell_ptr h s 5 10, ucast (VID_BOX_BR h), shown_attr s attr)]"
    by (rule box_corners_eq)
  show "box_hedges h s 2 2 5 10 attr =
      row_cells (cell_ptr h s 2 3) (replicate 7 (ucast (VID_BOX_H h))) (shown_attr s attr)
      @ row_cells (cell_ptr h s 5 3) (replicate 7 (ucast (VID_BOX_H h))) (shown_attr s attr)"
    by (simp add: box_hedges_def vid_hline_eq)
  show "box_vedges h s 2 2 5 10 attr =
      [(cell_ptr h s 3 2, ucast (VID_BOX_V h), shown_attr s attr),
       (cell_ptr h s 4 2, ucast (VID_BOX_V h), shown_attr s attr),
       (cell_ptr h s 3 10, ucast (VID_BOX_V h), shown_attr s attr),
       (cell_ptr h s 4 10, ucast (VID_BOX_V h), shown_attr s attr)]"
    by (simp add: box_vedges_def vid_vline_eq upt_conv_Cons)
  show corners: "length (box_corners h s 2 2 5 10 attr) = 4"
    by (simp add: box_corners_eq)
  show hedges: "length (box_hedges h s 2 2 5 10 attr) = 14"
    by (simp add: box_hedges_length)
  show vedges: "length (box_vedges h s 2 2 5 10 attr) = 4"
    by (simp add: box_vedges_length)
  from corners hedges vedges show "length (vid_box h s 2 2 5 10 attr) = 22"
    by (simp add: vid_box_def)
qed

text \<open>
  The counts of claim C3 as stated, on an 80-column screen: the vertical edges
  are not 6 cells, and edges together are not 24.
\<close>

theorem box_2_2_5_10_counterexample:
  "length (box_vedges cp437_80 mono_state 2 2 5 10 0x07) \<noteq> 6
   \<and> length (box_hedges cp437_80 mono_state 2 2 5 10 0x07)
       + length (box_vedges cp437_80 mono_state 2 2 5 10 0x07) \<noteq> 24"
  by (simp add: box_hedges_length box_vedges_length)

lemma edge_length_valid:
  fixes a b :: cint
  assumes "0 \<le>s a" and "0 \<le>s b" and "b \<le>s a"
  shows "sint (b - a - 1) \<le> 0"
proof (rule edge_length_nonpos)
  show "b \<le>s a"
    by fact
  have "0 \<le> sint b"
    using assms(2) by (simp add: word_sle_eq)
  moreover have "sint a < 2 ^ 15"
    using sint_lt [of a] by simp
  ultimately show "sint a - sint b < 32768"
    by simp
qed

text \<open>
  Claim C10. The coordinates are those of cells, so none is negative (section 3
  of the specification). A call of \<open>vid_box\<close> that violates a requirement leaves
  the corresponding edges empty: when \<open>c2 \<le> c1\<close> the length \<open>c2 - c1 - 1\<close> is
  non-positive and both calls of \<open>vid_hline\<close> write no cell; when \<open>r2 \<le> r1\<close> the
  length \<open>r2 - r1 - 1\<close> is non-positive and both calls of \<open>vid_vline\<close> write no
  cell; \<open>vid_hline\<close> and \<open>vid_vline\<close> with any non-positive length write no
  cell. The four corners are written first by every call, and they are all that
  is written when both requirements are violated.
\<close>

theorem box_degenerate:
  assumes "0 \<le>s r1" and "0 \<le>s c1" and "0 \<le>s r2" and "0 \<le>s c2"
  shows "length (box_corners h s r1 c1 r2 c2 attr) = 4
   \<and> take 4 (vid_box h s r1 c1 r2 c2 attr) = box_corners h s r1 c1 r2 c2 attr
   \<and> (sint n \<le> 0 \<longrightarrow>
        vid_hline h s row col n attr = [] \<and> vid_vline h s row col n attr = [])
   \<and> (c2 \<le>s c1 \<longrightarrow>
        sint (c2 - c1 - 1) \<le> 0
        \<and> vid_hline h s r1 (c1 + 1) (c2 - c1 - 1) attr = []
        \<and> vid_hline h s r2 (c1 + 1) (c2 - c1 - 1) attr = []
        \<and> box_hedges h s r1 c1 r2 c2 attr = [])
   \<and> (r2 \<le>s r1 \<longrightarrow>
        sint (r2 - r1 - 1) \<le> 0
        \<and> vid_vline h s (r1 + 1) c1 (r2 - r1 - 1) attr = []
        \<and> vid_vline h s (r1 + 1) c2 (r2 - r1 - 1) attr = []
        \<and> box_vedges h s r1 c1 r2 c2 attr = [])
   \<and> (c2 \<le>s c1 \<and> r2 \<le>s r1 \<longrightarrow>
        vid_box h s r1 c1 r2 c2 attr = box_corners h s r1 c1 r2 c2 attr)"
proof -
  have corners: "length (box_corners h s r1 c1 r2 c2 attr) = 4"
    by (simp add: box_corners_eq)
  have first: "take 4 (vid_box h s r1 c1 r2 c2 attr) = box_corners h s r1 c1 r2 c2 attr"
    using corners by (simp add: vid_box_def)
  have noop: "vid_hline h s row col n attr = [] \<and> vid_vline h s row col n attr = []"
    if "sint n \<le> 0" for row col n
    using that by (simp add: vid_hline_eq vid_vline_eq)
  have hlen: "sint (c2 - c1 - 1) \<le> 0" if "c2 \<le>s c1"
    using assms(2) assms(4) that by (rule edge_length_valid)
  have vlen: "sint (r2 - r1 - 1) \<le> 0" if "r2 \<le>s r1"
    using assms(1) assms(3) that by (rule edge_length_valid)
  have hedges: "box_hedges h s r1 c1 r2 c2 attr = []" if "c2 \<le>s c1"
    using hlen [OF that] by (simp add: box_hedges_def vid_hline_eq)
  have vedges: "box_vedges h s r1 c1 r2 c2 attr = []" if "r2 \<le>s r1"
    using vlen [OF that] by (simp add: box_vedges_def vid_vline_eq)
  have only: "vid_box h s r1 c1 r2 c2 attr = box_corners h s r1 c1 r2 c2 attr"
    if "c2 \<le>s c1" and "r2 \<le>s r1"
    using hedges [OF that(1)] vedges [OF that(2)] by (simp add: vid_box_def)
  show ?thesis
  proof (intro conjI impI)
    show "length (box_corners h s r1 c1 r2 c2 attr) = 4"
      by (rule corners)
    show "take 4 (vid_box h s r1 c1 r2 c2 attr) = box_corners h s r1 c1 r2 c2 attr"
      by (rule first)
  next
    assume "sint n \<le> 0"
    from noop [OF this]
    show "vid_hline h s row col n attr = []" and "vid_vline h s row col n attr = []"
      by simp_all
  next
    assume le: "c2 \<le>s c1"
    show len: "sint (c2 - c1 - 1) \<le> 0"
      using le by (rule hlen)
    from noop [OF len]
    show "vid_hline h s r1 (c1 + 1) (c2 - c1 - 1) attr = []"
      and "vid_hline h s r2 (c1 + 1) (c2 - c1 - 1) attr = []"
      by simp_all
    show "box_hedges h s r1 c1 r2 c2 attr = []"
      using le by (rule hedges)
  next
    assume le: "r2 \<le>s r1"
    show len: "sint (r2 - r1 - 1) \<le> 0"
      using le by (rule vlen)
    from noop [OF len]
    show "vid_vline h s (r1 + 1) c1 (r2 - r1 - 1) attr = []"
      and "vid_vline h s (r1 + 1) c2 (r2 - r1 - 1) attr = []"
      by simp_all
    show "box_vedges h s r1 c1 r2 c2 attr = []"
      using le by (rule vedges)
  next
    assume "c2 \<le>s c1 \<and> r2 \<le>s r1"
    then show "vid_box h s r1 c1 r2 c2 attr = box_corners h s r1 c1 r2 c2 attr"
      using only by blast
  qed
qed

theorem box_degenerate_witness:
  "(0::cint) \<le>s 5 \<and> (0::cint) \<le>s 10 \<and> (0::cint) \<le>s 2
   \<and> (2::cint) \<le>s 10 \<and> (5::cint) \<le>s 5
   \<and> vid_box cp437_80 mono_state 5 10 5 2 0x1E =
      [((0xB000, 820), 0xDA, 0x70), ((0xB000, 804), 0xBF, 0x70),
       ((0xB000, 820), 0xC0, 0x70), ((0xB000, 804), 0xD9, 0x70)]
   \<and> box_vedges cp437_80 mono_state 5 2 5 10 0x1E = []
   \<and> length (box_hedges cp437_80 mono_state 5 2 5 10 0x1E) = 14"
proof -
  have valid: "(0::cint) \<le>s 5" "(0::cint) \<le>s 10" "(0::cint) \<le>s 2"
    by (simp_all add: word_sle_eq)
  have cols: "(2::cint) \<le>s 10"
    by (simp add: word_sle_eq)
  have rows: "(5::cint) \<le>s 5"
    by simp
  have corners: "box_corners cp437_80 mono_state 5 10 5 2 0x1E =
      [((0xB000, 820), 0xDA, 0x70), ((0xB000, 804), 0xBF, 0x70),
       ((0xB000, 820), 0xC0, 0x70), ((0xB000, 804), 0xD9, 0x70)]"
    by (simp add: box_corners_def vid_putc_def vid_map_attr_def mono_state_def vid_set_def
        boot_state_def mono_buffer_def far_add_def cp437_80_def Let_def)
  have both: "vid_box cp437_80 mono_state 5 10 5 2 0x1E =
      box_corners cp437_80 mono_state 5 10 5 2 0x1E"
    using box_degenerate [OF valid(1) valid(2) valid(1) valid(3),
        of cp437_80 mono_state "0x1E" 0 0 0] cols rows
    by blast
  have one: "box_vedges cp437_80 mono_state 5 2 5 10 0x1E = []"
    using box_degenerate [OF valid(1) valid(3) valid(1) valid(2),
        of cp437_80 mono_state "0x1E" 0 0 0] rows
    by blast
  have "length (box_hedges cp437_80 mono_state 5 2 5 10 0x1E) = 14"
    by (simp add: box_hedges_length)
  with valid cols rows corners both one show ?thesis
    by simp
qed

text \<open>
  Outside the cells the subtraction can wrap: for \<open>c1 = 32767\<close> and \<open>c2 = -2\<close>
  the length \<open>c2 - c1 - 1\<close> comes out as 32766 and the horizontal edges are
  drawn.
\<close>

lemma box_edge_length_wraps:
  "(- 2 :: cint) \<le>s 32767
   \<and> sint ((- 2 :: cint) - 32767 - 1) = 32766
   \<and> length (box_hedges h s r1 32767 r2 (- 2) attr) = 65532"
  by (simp add: box_hedges_length word_sle_eq)

end
